theory Spec2Isabelle
  imports Main "HOL-Library.Multiset" "HOL-Library.Char_ord" "HOL-Library.List_Lexorder"
begin

section \<open>Tables\<close>

text \<open>
  The program (\<^verbatim>\<open>src/app.py\<close>, class \<^verbatim>\<open>CSVExcelModifier\<close>) edits a pandas
  DataFrame. A cell is a Python scalar: a missing value (NaN or None), a number, a
  string or a boolean. Numbers are modelled as unbounded integers; floating point
  rounding is outside the model.
\<close>

datatype scalar = Null | Num int | Str string | Bool bool

text \<open>
  The dtype of a column decides how the library compares it with a scalar:
  \<open>Numeric\<close> stands for int64 and float64 (cells are numbers or NaN), \<open>Boolean\<close>
  for bool, \<open>Object\<close> for columns of arbitrary Python objects (strings, mixed cells).
\<close>

datatype dtype = Numeric | Boolean | Object

text \<open>
  A column label is a string (CSV header, JSON key) or an integer (the label the
  library gives the column of a frame built from a list of scalars).
\<close>

datatype label = Name string | Position int

text \<open>
  A DataFrame: its columns with their dtypes, and its rows in order. Each row carries
  its index label (the library keeps the labels through filtering, sorting and
  dropping; only \<^verbatim>\<open>concat(..., ignore_index=True)\<close> renumbers) and one cell per
  column.
\<close>

record dataframe =
  columns :: "(label \<times> dtype) list"
  rows :: "(int \<times> scalar list) list"

definition len :: "dataframe \<Rightarrow> nat" where
  "len df = length (rows df)"

fun position :: "'a \<Rightarrow> 'a list \<Rightarrow> nat option" where
  "position x [] = None"
| "position x (y # ys) = (if x = y then Some 0 else map_option Suc (position x ys))"

definition cell_at :: "scalar list \<Rightarrow> nat \<Rightarrow> scalar" where
  "cell_at cells j = (if j < length cells then cells ! j else Null)"

definition column_cells :: "dataframe \<Rightarrow> nat \<Rightarrow> scalar list" where
  "column_cells df j = map (\<lambda>r. cell_at (snd r) j) (rows df)"

section \<open>Errors, rules, operations and the session\<close>

datatype py_error = KeyError | TypeError | ValueError

text \<open>
  A rule and a row operation are JSON objects. A field is \<open>None\<close> when the key is
  absent from the object: \<^verbatim>\<open>rule["column"]\<close> then raises KeyError, while
  \<^verbatim>\<open>operation.get("index")\<close> yields None.
\<close>

record rule =
  column :: "label option"
  condition :: "string option"
  val :: "scalar option"

record operation =
  op_action :: "string option"
  row_data :: "(string \<times> scalar) list option"
  index :: "int option"

text \<open>
  The messages are f-strings. An f-string is kept as its parts: literal text and the
  values substituted into it.
\<close>

datatype fpart =
    Text string
  | Sub_str string
  | Sub_int int
  | Sub_rules "rule list"
  | Sub_operations "operation list"
  | Sub_error py_error

datatype log_entry = Log_entry (action: string) (details: "fpart list")

text \<open>
  What a chart call draws, and the state a call works on: the modifier's log
  (\<^verbatim>\<open>self.log\<close>), the messages passed to \<^verbatim>\<open>st.error\<close> and the figures passed to
  \<^verbatim>\<open>st.pyplot\<close> (each with the drawings made on it).
\<close>

datatype drawing =
    Bar "scalar list" "scalar list"
  | Bar_counts "scalar list"
  | Line "scalar list" "scalar list"
  | Pie_counts "scalar list"

record session =
  log :: "log_entry list"
  st_error :: "fpart list list"
  st_pyplot :: "drawing list list"

definition log_action :: "session \<Rightarrow> log_entry \<Rightarrow> session" where
  "log_action s entry = s\<lparr>log := log s @ [entry]\<rparr>"

definition report :: "session \<Rightarrow> fpart list \<Rightarrow> session" where
  "report s msg = s\<lparr>st_error := st_error s @ [msg]\<rparr>"

section \<open>Filling missing values\<close>

text \<open>
  \<^verbatim>\<open>df.fillna(method="ffill")\<close> scans every column on its own from the first row
  to the last, carrying the last value seen that is not missing; \<^verbatim>\<open>"bfill"\<close> scans
  from the last row to the first. The model is of the library versions that accept
  the \<^verbatim>\<open>method\<close> argument. None of the three fill calls raises there; the result
  type keeps the branch of the handler all the same.
\<close>

fun pad_from :: "scalar \<Rightarrow> scalar list \<Rightarrow> scalar list" where
  "pad_from carry [] = []"
| "pad_from carry (x # xs) =
     (if x = Null then carry # pad_from carry xs else x # pad_from x xs)"

definition pad_1d :: "scalar list \<Rightarrow> scalar list" where
  "pad_1d xs = pad_from Null xs"

definition backfill_1d :: "scalar list \<Rightarrow> scalar list" where
  "backfill_1d xs = rev (pad_from Null (rev xs))"

definition fill_columns :: "(scalar list \<Rightarrow> scalar list) \<Rightarrow> dataframe \<Rightarrow> dataframe" where
  "fill_columns f df =
     df\<lparr>rows := map (\<lambda>k. (fst (rows df ! k),
                               map (\<lambda>j. f (column_cells df j) ! k)
                                   [0..<length (snd (rows df ! k))]))
                      [0..<length (rows df)]\<rparr>"

definition filled_dtype :: "scalar \<Rightarrow> dtype \<Rightarrow> scalar list \<Rightarrow> dtype" where
  "filled_dtype v dt cells =
     (if dt = Numeric \<and> Null \<in> set cells \<and> (case v of Num n \<Rightarrow> False | Null \<Rightarrow> False | _ \<Rightarrow> True)
      then Object else dt)"

definition fillna_value :: "dataframe \<Rightarrow> scalar \<Rightarrow> dataframe" where
  "fillna_value df v =
     \<lparr>columns = map (\<lambda>j. (fst (columns df ! j), filled_dtype v (snd (columns df ! j)) (column_cells df j)))
                     [0..<length (columns df)],
      rows = map (\<lambda>r. (fst r, map (\<lambda>c. if c = Null then v else c) (snd r))) (rows df)\<rparr>"

definition fill_body :: "dataframe \<Rightarrow> string \<Rightarrow> scalar option \<Rightarrow> py_error + dataframe" where
  "fill_body df method v =
     (if method = ''ffill'' then Inr (fill_columns pad_1d df)
      else if method = ''bfill'' then Inr (fill_columns backfill_1d df)
      else if method = ''value'' \<and> v \<noteq> None then
        (case v of Some x \<Rightarrow> Inr (fillna_value df x) | None \<Rightarrow> Inr df)
      else Inr df)"

definition fill_missing_values ::
  "session \<Rightarrow> dataframe \<Rightarrow> string \<Rightarrow> scalar option \<Rightarrow> session \<times> dataframe" where
  "fill_missing_values s df method v =
     (case fill_body df method v of
        Inr df_filled \<Rightarrow>
          (log_action s (Log_entry ''fill_missing_values''
             [Text ''Filled missing values using '', Sub_str method, Text '' method.'']),
           df_filled)
      | Inl e \<Rightarrow> (report s [Text ''Error filling missing values: '', Sub_error e], df))"

section \<open>Removing duplicates\<close>

text \<open>
  \<^verbatim>\<open>df.drop_duplicates()\<close> keeps the first row of every group of rows whose cells
  are equal column by column, with the row's label. The library hashes the cells: two
  missing values are equal there, and \<^verbatim>\<open>True\<close> equals \<^verbatim>\<open>1\<close> as in Python. A frame
  with no rows or no columns is returned as it is.
\<close>

fun dup_key :: "scalar \<Rightarrow> scalar" where
  "dup_key (Bool b) = Num (if b then 1 else 0)"
| "dup_key x = x"

fun keep_first :: "scalar list list \<Rightarrow> (int \<times> scalar list) list \<Rightarrow> (int \<times> scalar list) list" where
  "keep_first seen [] = []"
| "keep_first seen (r # rs) =
     (if map dup_key (snd r) \<in> set seen then keep_first seen rs
      else r # keep_first (map dup_key (snd r) # seen) rs)"

definition drop_duplicates :: "dataframe \<Rightarrow> dataframe" where
  "drop_duplicates df =
     (if columns df = [] \<or> rows df = [] then df else df\<lparr>rows := keep_first [] (rows df)\<rparr>)"

definition remove_duplicates :: "session \<Rightarrow> dataframe \<Rightarrow> session \<times> dataframe" where
  "remove_duplicates s df =
     (let initial_count = len df;
          df_cleaned = drop_duplicates df;
          final_count = len df_cleaned
      in (log_action s (Log_entry ''remove_duplicates''
            [Text ''Removed '', Sub_int (int initial_count - int final_count),
             Text '' duplicate rows.'']),
          df_cleaned))"

section \<open>Filtering by rules\<close>

text \<open>
  \<^verbatim>\<open>df[column] > value\<close> compares a column with a scalar. Python compares numbers
  with numbers (a boolean counts as 0 or 1) and strings with strings; ordering a
  string against a number raises TypeError, while \<^verbatim>\<open>==\<close> between them is False.
\<close>

datatype comparator = Greater_than | Less_than | Equals

fun as_number :: "scalar \<Rightarrow> int option" where
  "as_number (Num n) = Some n"
| "as_number (Bool b) = Some (if b then 1 else 0)"
| "as_number _ = None"

fun is_str :: "scalar \<Rightarrow> bool" where
  "is_str (Str s) = True"
| "is_str _ = False"

fun py_compare :: "comparator \<Rightarrow> scalar \<Rightarrow> scalar \<Rightarrow> py_error + bool" where
  "py_compare c (Str s) (Str t) =
     Inr (case c of Greater_than \<Rightarrow> t < s | Less_than \<Rightarrow> s < t | Equals \<Rightarrow> s = t)"
| "py_compare c x v =
     (case (as_number x, as_number v) of
        (Some a, Some b) \<Rightarrow>
          Inr (case c of Greater_than \<Rightarrow> b < a | Less_than \<Rightarrow> a < b | Equals \<Rightarrow> a = b)
      | _ \<Rightarrow> (if c = Equals then Inr False else Inl TypeError))"

text \<open>
  The library's comparison of a column with a scalar. A missing scalar gives False
  everywhere. A numeric or boolean column ordered against a string raises TypeError
  whatever its cells. Otherwise the cells are compared one by one: a missing cell
  gives False, and the first comparison that raises ends the call.
\<close>

fun compare_each :: "comparator \<Rightarrow> scalar list \<Rightarrow> scalar \<Rightarrow> py_error + bool list" where
  "compare_each c [] v = Inr []"
| "compare_each c (x # xs) v =
     (case (if x = Null then Inr False else py_compare c x v) of
        Inl e \<Rightarrow> Inl e
      | Inr b \<Rightarrow> (case compare_each c xs v of Inl e \<Rightarrow> Inl e | Inr bs \<Rightarrow> Inr (b # bs)))"

definition series_compare ::
  "comparator \<Rightarrow> dtype \<Rightarrow> scalar list \<Rightarrow> scalar \<Rightarrow> py_error + bool list" where
  "series_compare c dt cells v =
     (if v = Null then Inr (map (\<lambda>x. False) cells)
      else if dt \<noteq> Object \<and> is_str v \<and> c \<noteq> Equals then Inl TypeError
      else compare_each c cells v)"

text \<open>\<^verbatim>\<open>df[mask]\<close>: the rows whose mask entry is True, with their labels.\<close>

definition boolean_index :: "dataframe \<Rightarrow> bool list \<Rightarrow> dataframe" where
  "boolean_index df keep = df\<lparr>rows := map fst (filter snd (zip (rows df) keep))\<rparr>"

definition filter_by :: "dataframe \<Rightarrow> label \<Rightarrow> comparator \<Rightarrow> scalar \<Rightarrow> py_error + dataframe" where
  "filter_by df c cmp v =
     (case position c (map fst (columns df)) of
        None \<Rightarrow> Inl KeyError
      | Some j \<Rightarrow>
          (case series_compare cmp (snd (columns df ! j)) (column_cells df j) v of
             Inl e \<Rightarrow> Inl e
           | Inr keep \<Rightarrow> Inr (boolean_index df keep)))"

text \<open>One pass of the loop body of \<open>apply_rules\<close> (lines 28 to 34).\<close>

definition rule_step :: "dataframe \<Rightarrow> rule \<Rightarrow> py_error + dataframe" where
  "rule_step df r =
     (case column r of None \<Rightarrow> Inl KeyError | Some c \<Rightarrow>
      case condition r of None \<Rightarrow> Inl KeyError | Some k \<Rightarrow>
      case val r of None \<Rightarrow> Inl KeyError | Some v \<Rightarrow>
        if k = ''greater_than'' then filter_by df c Greater_than v
        else if k = ''less_than'' then filter_by df c Less_than v
        else if k = ''equals'' then filter_by df c Equals v
        else Inr df)"

text \<open>
  The loop assigns each filtered frame to the local variable \<^verbatim>\<open>df\<close>, and the
  handler returns \<^verbatim>\<open>df\<close>: when a rule raises, the handler sees the frame as the
  rules before it left it. So a failing loop yields the error and that frame.
\<close>

fun rules_loop :: "dataframe \<Rightarrow> rule list \<Rightarrow> (py_error \<times> dataframe) + dataframe" where
  "rules_loop df [] = Inr df"
| "rules_loop df (r # rs) =
     (case rule_step df r of Inl e \<Rightarrow> Inl (e, df) | Inr df' \<Rightarrow> rules_loop df' rs)"

definition apply_rules :: "session \<Rightarrow> dataframe \<Rightarrow> rule list \<Rightarrow> session \<times> dataframe" where
  "apply_rules s df rules =
     (case rules_loop df rules of
        Inr df' \<Rightarrow>
          (log_action s (Log_entry ''apply_rules''
             [Text ''Applied rules: '', Sub_rules rules, Text ''. Remaining rows: '',
              Sub_int (int (len df'))]),
           df')
      | Inl (e, df') \<Rightarrow> (report s [Text ''Error applying rules: '', Sub_error e], df'))"

text \<open>
  What it means for a row to satisfy a rule, read off the rule and the row alone: the
  rule has its three keys; if its condition is one of the three comparators, its
  column exists and the row's cell there compares as asked with the rule's value. A
  rule with any other condition asks nothing of a row.
\<close>

definition comparator_of :: "string \<Rightarrow> comparator option" where
  "comparator_of k =
     (if k = ''greater_than'' then Some Greater_than
      else if k = ''less_than'' then Some Less_than
      else if k = ''equals'' then Some Equals
      else None)"

definition holds :: "comparator \<Rightarrow> scalar \<Rightarrow> scalar \<Rightarrow> bool" where
  "holds c x v = (x \<noteq> Null \<and> v \<noteq> Null \<and> py_compare c x v = Inr True)"

definition satisfies :: "(label \<times> dtype) list \<Rightarrow> rule \<Rightarrow> scalar list \<Rightarrow> bool" where
  "satisfies cols r cells =
     (case (column r, condition r, val r) of
        (Some c, Some k, Some v) \<Rightarrow>
          (case comparator_of k of
             None \<Rightarrow> True
           | Some cmp \<Rightarrow>
               (case position c (map fst cols) of
                  None \<Rightarrow> False
                | Some j \<Rightarrow> holds cmp (cell_at cells j) v))
      | _ \<Rightarrow> False)"

section \<open>Adding and deleting rows\<close>

text \<open>
  \<^verbatim>\<open>pd.DataFrame([row_data])\<close> is a frame of one row: one column per key of the
  dictionary, or the single column 0 holding None when \<^verbatim>\<open>row_data\<close> is None.
  \<^verbatim>\<open>pd.concat([df, new], ignore_index=True)\<close> appends that row: the columns are
  those of \<^verbatim>\<open>df\<close> followed by the new ones, a cell with no value is missing, and
  the rows are relabelled 0, 1, 2, ... The dtypes follow the library's common-type
  rules; no theorem below depends on them.
\<close>

fun new_frame :: "(string \<times> scalar) list option \<Rightarrow> (label \<times> scalar) list" where
  "new_frame None = [(Position 0, Null)]"
| "new_frame (Some d) = map (\<lambda>kv. (Name (fst kv), snd kv)) d"

fun dtype_of :: "scalar \<Rightarrow> dtype" where
  "dtype_of (Num n) = Numeric"
| "dtype_of (Bool b) = Boolean"
| "dtype_of x = Object"

fun upcast_na :: "dtype \<Rightarrow> dtype" where
  "upcast_na Numeric = Numeric"
| "upcast_na x = Object"

fun common_dtype :: "dtype \<Rightarrow> scalar \<Rightarrow> dtype" where
  "common_dtype dt Null = upcast_na dt"
| "common_dtype dt (Num n) = (if dt = Numeric then Numeric else Object)"
| "common_dtype dt (Bool b) = (if dt = Boolean then Boolean else Object)"
| "common_dtype dt (Str s) = Object"

definition pd_concat :: "dataframe \<Rightarrow> (label \<times> scalar) list \<Rightarrow> dataframe" where
  "pd_concat df new =
     (let added = filter (\<lambda>cv. fst cv \<notin> set (map fst (columns df))) new;
          cols = map (\<lambda>cd. (fst cd, case map_of new (fst cd) of
                                      None \<Rightarrow> upcast_na (snd cd)
                                    | Some v \<Rightarrow> common_dtype (snd cd) v)) (columns df)
                 @ map (\<lambda>cv. (fst cv, upcast_na (dtype_of (snd cv)))) added;
          old_rows = map (\<lambda>r. snd r @ replicate (length added) Null) (rows df);
          new_row = map (\<lambda>cd. case map_of new (fst cd) of None \<Rightarrow> Null | Some v \<Rightarrow> v) (columns df)
                    @ map snd added;
          all_rows = old_rows @ [new_row]
      in \<lparr>columns = cols, rows = zip (map int [0..<length all_rows]) all_rows\<rparr>)"

text \<open>
  \<^verbatim>\<open>df.drop(i)\<close> removes the rows whose index label is \<^verbatim>\<open>i\<close>, and raises
  KeyError when no row has that label.
\<close>

definition df_drop :: "dataframe \<Rightarrow> int \<Rightarrow> py_error + dataframe" where
  "df_drop df i =
     (if i \<in> set (map fst (rows df)) then Inr (df\<lparr>rows := filter (\<lambda>r. fst r \<noteq> i) (rows df)\<rparr>)
      else Inl KeyError)"

text \<open>One pass of the loop body of \<open>add_or_delete_rows\<close> (lines 48 to 54).\<close>

definition operation_step :: "dataframe \<Rightarrow> operation \<Rightarrow> py_error + dataframe" where
  "operation_step df operation =
     (case op_action operation of None \<Rightarrow> Inl KeyError | Some a \<Rightarrow>
        if a = ''add'' then Inr (pd_concat df (new_frame (row_data operation)))
        else if a = ''delete'' then
          (case index operation of
             None \<Rightarrow> Inr df
           | Some index_to_delete \<Rightarrow>
               if 0 \<le> index_to_delete \<and> index_to_delete < int (len df)
               then df_drop df index_to_delete else Inr df)
        else Inr df)"

fun operations_loop ::
  "dataframe \<Rightarrow> operation list \<Rightarrow> (py_error \<times> dataframe) + dataframe" where
  "operations_loop df [] = Inr df"
| "operations_loop df (operation # rest) =
     (case operation_step df operation of
        Inl e \<Rightarrow> Inl (e, df)
      | Inr df' \<Rightarrow> operations_loop df' rest)"

definition add_or_delete_rows ::
  "session \<Rightarrow> dataframe \<Rightarrow> operation list \<Rightarrow> session \<times> dataframe" where
  "add_or_delete_rows s df operations =
     (case operations_loop df operations of
        Inr df' \<Rightarrow>
          (log_action s (Log_entry ''add_or_delete_rows''
             [Text ''Performed operations: '', Sub_operations operations,
              Text ''. Final rows: '', Sub_int (int (len df'))]),
           df')
      | Inl (e, df') \<Rightarrow> (report s [Text ''Error performing operations: '', Sub_error e], df'))"

text \<open>
  Deleting by position, as the specification words it: the row at position \<open>i\<close> of the
  current table goes, and an index that is missing or out of range changes nothing.
\<close>

definition delete_at_position :: "dataframe \<Rightarrow> int option \<Rightarrow> dataframe" where
  "delete_at_position df i =
     (case i of
        None \<Rightarrow> df
      | Some n \<Rightarrow>
          if 0 \<le> n \<and> n < int (len df)
          then df\<lparr>rows := take (nat n) (rows df) @ drop (Suc (nat n)) (rows df)\<rparr>
          else df)"

section \<open>Sorting\<close>

text \<open>
  \<^verbatim>\<open>df.sort_values(by=column, ascending=ascending)\<close> looks the column up (KeyError
  when it is absent), computes an indexer with the library's \<^verbatim>\<open>nargsort\<close> and takes
  the rows in that order, each with its label. \<^verbatim>\<open>nargsort\<close> sets the missing keys
  aside, reverses the others when the order is descending, calls the array's
  \<^verbatim>\<open>argsort\<close>, maps the positions back (reversing again when descending) and puts the
  missing keys last.

  The call passes no \<^verbatim>\<open>kind\<close>, so \<^verbatim>\<open>argsort\<close> runs the default algorithm
  (\<^verbatim>\<open>kind='quicksort'\<close>), which the library documents as not stable. The algorithm is
  therefore a parameter \<open>argsort\<close> of the model: a function from the keys to a list of
  positions. Comparing a string with a number raises TypeError, so keys that mix
  the two cannot be sorted.
\<close>

definition key_le :: "scalar \<Rightarrow> scalar \<Rightarrow> bool" where
  "key_le x y =
     (case (x, y) of
        (Str s, Str t) \<Rightarrow> s \<le> t
      | _ \<Rightarrow> (case (as_number x, as_number y) of (Some a, Some b) \<Rightarrow> a \<le> b | _ \<Rightarrow> False))"

definition comparable :: "scalar list \<Rightarrow> bool" where
  "comparable ks = (list_all is_str ks \<or> list_all (\<lambda>k. as_number k \<noteq> None) ks)"

definition nargsort :: "(scalar list \<Rightarrow> nat list) \<Rightarrow> scalar list \<Rightarrow> bool \<Rightarrow> py_error + nat list" where
  "nargsort argsort items ascending =
     (let idx = [0..<length items];
          non_nan_idx = filter (\<lambda>i. items ! i \<noteq> Null) idx;
          nan_idx = filter (\<lambda>i. items ! i = Null) idx;
          non_nans = map (\<lambda>i. items ! i) non_nan_idx;
          non_nans' = (if ascending then non_nans else rev non_nans);
          non_nan_idx' = (if ascending then non_nan_idx else rev non_nan_idx)
      in if \<not> comparable non_nans then Inl TypeError
         else
           (let indexer = map (\<lambda>p. non_nan_idx' ! p) (argsort non_nans');
                indexer' = (if ascending then indexer else rev indexer)
            in Inr (indexer' @ nan_idx)))"

definition sort_values ::
  "(scalar list \<Rightarrow> nat list) \<Rightarrow> dataframe \<Rightarrow> label \<Rightarrow> bool \<Rightarrow> py_error + dataframe" where
  "sort_values argsort df c ascending =
     (case position c (map fst (columns df)) of
        None \<Rightarrow> Inl KeyError
      | Some j \<Rightarrow>
          (case nargsort argsort (column_cells df j) ascending of
             Inl e \<Rightarrow> Inl e
           | Inr indexer \<Rightarrow> Inr (df\<lparr>rows := map (\<lambda>i. rows df ! i) indexer\<rparr>)))"

definition sort_data ::
  "(scalar list \<Rightarrow> nat list) \<Rightarrow> session \<Rightarrow> dataframe \<Rightarrow> string \<Rightarrow> bool \<Rightarrow> session \<times> dataframe" where
  "sort_data argsort s df col_name ascending =
     (case sort_values argsort df (Name col_name) ascending of
        Inr df_sorted \<Rightarrow>
          (log_action s (Log_entry ''sort_data''
             [Text ''Sorted data by '', Sub_str col_name, Text '' in '',
              Sub_str (if ascending then ''ascending'' else ''descending''), Text '' order.'']),
           df_sorted)
      | Inl e \<Rightarrow> (report s [Text ''Error sorting data: '', Sub_error e], df))"

text \<open>
  What an \<^verbatim>\<open>argsort\<close> promises on the keys \<open>ks\<close>: its result lists every position
  once, and reading the keys in that order gives them in non-decreasing order.
\<close>

definition sorts :: "(scalar list \<Rightarrow> nat list) \<Rightarrow> scalar list \<Rightarrow> bool" where
  "sorts argsort ks =
     (mset (argsort ks) = mset [0..<length ks]
      \<and> sorted_wrt key_le (map (\<lambda>p. ks ! p) (argsort ks)))"

definition present :: "scalar list \<Rightarrow> scalar list" where
  "present ks = filter (\<lambda>k. k \<noteq> Null) ks"

text \<open>
  The order of a sorted column: of any two cells, the later one is missing, or neither
  is and the two are in the order asked for.
\<close>

definition ordered :: "bool \<Rightarrow> scalar list \<Rightarrow> bool" where
  "ordered ascending ks =
     sorted_wrt (\<lambda>x y. y = Null \<or> (x \<noteq> Null \<and> (if ascending then key_le x y else key_le y x))) ks"

text \<open>
  Stability in column \<open>j\<close>: for every key of the input, the rows with that key come in
  the output in the order they have in the input.
\<close>

definition stable :: "nat \<Rightarrow> dataframe \<Rightarrow> dataframe \<Rightarrow> bool" where
  "stable j df out =
     list_all (\<lambda>k. filter (\<lambda>r. cell_at (snd r) j = k) (rows out)
                    = filter (\<lambda>r. cell_at (snd r) j = k) (rows df))
              (column_cells df j)"

section \<open>Charts\<close>

text \<open>
  \<open>create_chart\<close> looks columns up (KeyError when one is absent) and hands the cells
  to the plotting library. Whether the library raises on given data is not decided by
  this program: \<open>plot\<close> is a parameter of the model, giving for a drawing the error the
  library raises, or \<open>None\<close> when it draws. \<^verbatim>\<open>if y_column\<close> is Python truthiness: None
  and the empty string are false.
\<close>

definition truthy :: "string option \<Rightarrow> bool" where
  "truthy y = (case y of None \<Rightarrow> False | Some c \<Rightarrow> c \<noteq> [])"

definition getitem :: "dataframe \<Rightarrow> string \<Rightarrow> py_error + scalar list" where
  "getitem df c =
     (case position (Name c) (map fst (columns df)) of
        None \<Rightarrow> Inl KeyError
      | Some j \<Rightarrow> Inr (column_cells df j))"

definition draw :: "(drawing \<Rightarrow> py_error option) \<Rightarrow> drawing \<Rightarrow> py_error + fpart list list \<times> drawing list" where
  "draw plot d = (case plot d of Some e \<Rightarrow> Inl e | None \<Rightarrow> Inr ([], [d]))"

text \<open>
  Lines 124 to 146: the messages passed to \<^verbatim>\<open>st.error\<close> and the drawings made, or
  the exception raised.
\<close>

definition chart_body ::
  "(drawing \<Rightarrow> py_error option) \<Rightarrow> dataframe \<Rightarrow> string \<Rightarrow> string \<Rightarrow> string option
   \<Rightarrow> py_error + fpart list list \<times> drawing list" where
  "chart_body plot df chart_type x_column y_column =
     (if chart_type = ''Bar Chart'' then
        (if truthy y_column then
           (case getitem df x_column of Inl e \<Rightarrow> Inl e | Inr xs \<Rightarrow>
            case getitem df (case y_column of Some y \<Rightarrow> y | None \<Rightarrow> []) of Inl e \<Rightarrow> Inl e | Inr ys \<Rightarrow>
              draw plot (Bar xs ys))
         else
           (case getitem df x_column of Inl e \<Rightarrow> Inl e | Inr xs \<Rightarrow> draw plot (Bar_counts xs)))
      else if chart_type = ''Line Chart'' \<and> truthy y_column then
        (case getitem df x_column of Inl e \<Rightarrow> Inl e | Inr xs \<Rightarrow>
         case getitem df (case y_column of Some y \<Rightarrow> y | None \<Rightarrow> []) of Inl e \<Rightarrow> Inl e | Inr ys \<Rightarrow>
           draw plot (Line xs ys))
      else if chart_type = ''Pie Chart'' then
        (case getitem df x_column of Inl e \<Rightarrow> Inl e | Inr xs \<Rightarrow> draw plot (Pie_counts xs))
      else
        Inr ([[Text ''Invalid chart type or missing column(s). Please check your inputs.'']], []))"

definition chart_entry :: "string \<Rightarrow> string \<Rightarrow> string option \<Rightarrow> log_entry" where
  "chart_entry chart_type x_column y_column =
     Log_entry ''create_chart''
       [Text ''Created '', Sub_str chart_type, Text '' using '', Sub_str x_column, Text '' '',
        Sub_str (case y_column of
                   Some y \<Rightarrow> (if y \<noteq> [] then ''and '' @ y else [])
                 | None \<Rightarrow> []),
        Text ''.'']"

definition create_chart ::
  "(drawing \<Rightarrow> py_error option) \<Rightarrow> session \<Rightarrow> dataframe \<Rightarrow> string \<Rightarrow> string \<Rightarrow> string option
   \<Rightarrow> session" where
  "create_chart plot s df chart_type x_column y_column =
     (case chart_body plot df chart_type x_column y_column of
        Inl e \<Rightarrow> report s [Text ''Error creating chart: '', Sub_error e]
      | Inr (messages, drawn) \<Rightarrow>
          log_action ((foldl report s messages)\<lparr>st_pyplot := st_pyplot s @ [drawn]\<rparr>)
            (chart_entry chart_type x_column y_column))"

section \<open>Reading a table, and example tables\<close>

definition cell :: "dataframe \<Rightarrow> nat \<Rightarrow> nat \<Rightarrow> scalar" where
  "cell df k j = cell_at (snd (rows df ! k)) j"

definition s0 :: session where
  "s0 = \<lparr>log = [], st_error = [], st_pyplot = []\<rparr>"

definition T6 :: dataframe where
  "T6 = \<lparr>columns = [(Name ''A'', Numeric), (Name ''B'', Object)],
         rows = [(0, [Null, Str ''x'']), (1, [Num 1, Null]), (5, [Null, Null])]\<rparr>"

definition T1 :: dataframe where
  "T1 = \<lparr>columns = [(Name ''A'', Numeric)],
         rows = [(0, [Num 5]), (1, [Num 15]), (2, [Num 25])]\<rparr>"

definition gt10 :: rule where
  "gt10 = \<lparr>column = Some (Name ''A''), condition = Some ''greater_than'', val = Some (Num 10)\<rparr>"

definition missingB :: rule where
  "missingB = \<lparr>column = Some (Name ''B''), condition = Some ''greater_than'', val = Some (Num 0)\<rparr>"

definition skipB :: rule where
  "skipB = \<lparr>column = Some (Name ''B''), condition = Some ''not_equals'', val = Some (Num 0)\<rparr>"

definition T3 :: dataframe where
  "T3 = \<lparr>columns = [(Name ''A'', Numeric)],
         rows = [(0, [Num 10]), (1, [Num 20]), (2, [Num 30])]\<rparr>"

definition delete_op :: "int \<Rightarrow> operation" where
  "delete_op i = \<lparr>op_action = Some ''delete'', row_data = None, index = Some i\<rparr>"

definition add_op :: "(string \<times> scalar) list \<Rightarrow> operation" where
  "add_op d = \<lparr>op_action = Some ''add'', row_data = Some d, index = None\<rparr>"

definition no_action_op :: operation where
  "no_action_op = \<lparr>op_action = None, row_data = None, index = None\<rparr>"

definition T7 :: dataframe where
  "T7 = \<lparr>columns = [(Name ''A'', Numeric), (Name ''B'', Object)],
         rows = [(0, [Num 7, Str ''first'']), (1, [Num 3, Str ''low'']),
                 (2, [Num 7, Str ''second'']), (3, [Null, Str ''none''])]\<rparr>"

text \<open>
  Eighteen rows with the same key in column A; column B tells them apart. The table is
  longer than the short arrays that a quicksort hands to insertion sort.
\<close>

definition T18 :: dataframe where
  "T18 = \<lparr>columns = [(Name ''A'', Numeric), (Name ''B'', Numeric)],
          rows = map (\<lambda>i. (int i, [Num 1, Num (100 + int i)])) [0..<18]\<rparr>"

text \<open>
  Two sorting algorithms for the examples: one that keeps equal keys in their order,
  one that reverses them.
\<close>

definition key_number :: "scalar \<Rightarrow> int" where
  "key_number k = (case as_number k of Some n \<Rightarrow> n | None \<Rightarrow> 0)"

definition insertion_argsort :: "scalar list \<Rightarrow> nat list" where
  "insertion_argsort ks = sort_key (\<lambda>p. key_number (ks ! p)) [0..<length ks]"

definition reversing_argsort :: "scalar list \<Rightarrow> nat list" where
  "reversing_argsort ks = rev (sort_key (\<lambda>p. - key_number (ks ! p)) [0..<length ks])"

text \<open>A plotting library that draws whatever it is given.\<close>

definition never_raises :: "drawing \<Rightarrow> py_error option" where
  "never_raises d = None"

section \<open>Theorems\<close>

lemma fill_body_noop:
  "(method = ''value'' \<and> v = None) \<or> method \<notin> {''ffill'', ''bfill'', ''value''}
   \<Longrightarrow> fill_body df method v = Inr df"
  by (auto simp: fill_body_def)

text \<open>
  Claim C7. For every table, \<open>fill_missing_values\<close> called with method "value" and no
  value, or with a method other than "ffill", "bfill" and "value", returns the table
  as it was, and passes nothing to \<^verbatim>\<open>st.error\<close>.
\<close>

theorem fill_missing_values_noop:
  assumes "(method = ''value'' \<and> v = None) \<or> method \<notin> {''ffill'', ''bfill'', ''value''}"
  shows "snd (fill_missing_values s df method v) = df
       \<and> st_error (fst (fill_missing_values s df method v)) = st_error s"
  using fill_body_noop [OF assms, of df]
  by (simp add: fill_missing_values_def log_action_def)

theorem fill_missing_values_noop_witness:
  "snd (fill_missing_values \<lparr>log = [], st_error = [], st_pyplot = []\<rparr>
          \<lparr>columns = [(Name ''A'', Numeric)], rows = [(0, [Num 1]), (1, [Null])]\<rparr>
          ''median'' (Some (Num 7)))
     = \<lparr>columns = [(Name ''A'', Numeric)], rows = [(0, [Num 1]), (1, [Null])]\<rparr>
   \<and> snd (fill_missing_values \<lparr>log = [], st_error = [], st_pyplot = []\<rparr>
          \<lparr>columns = [(Name ''A'', Numeric)], rows = [(0, [Num 1]), (1, [Null])]\<rparr>
          ''value'' None)
     = \<lparr>columns = [(Name ''A'', Numeric)], rows = [(0, [Num 1]), (1, [Null])]\<rparr>"
  using fill_missing_values_noop [of "''median''" "Some (Num 7)"
          "\<lparr>log = [], st_error = [], st_pyplot = []\<rparr>"
          "\<lparr>columns = [(Name ''A'', Numeric)], rows = [(0, [Num 1]), (1, [Null])]\<rparr>"]
        fill_missing_values_noop [of "''value''" None
          "\<lparr>log = [], st_error = [], st_pyplot = []\<rparr>"
          "\<lparr>columns = [(Name ''A'', Numeric)], rows = [(0, [Num 1]), (1, [Null])]\<rparr>"]
  by simp

text \<open>
  Claim C10. On that branch \<open>fill_missing_values\<close> still appends one log entry, whose
  details read "Filled missing values using <method> method.", although the table is
  unchanged.
\<close>

theorem fill_missing_values_noop_logged:
  assumes "(method = ''value'' \<and> v = None) \<or> method \<notin> {''ffill'', ''bfill'', ''value''}"
  shows "fill_missing_values s df method v =
           (s\<lparr>log := log s @ [Log_entry ''fill_missing_values''
                  [Text ''Filled missing values using '', Sub_str method, Text '' method.'']]\<rparr>,
            df)"
  using fill_body_noop [OF assms, of df]
  by (simp add: fill_missing_values_def log_action_def)

theorem fill_missing_values_noop_logged_witness:
  "fill_missing_values \<lparr>log = [], st_error = [], st_pyplot = []\<rparr>
          \<lparr>columns = [(Name ''A'', Numeric)], rows = [(0, [Num 1]), (1, [Null])]\<rparr>
          ''median'' None
     = (\<lparr>log = [Log_entry ''fill_missing_values''
                [Text ''Filled missing values using '', Sub_str ''median'', Text '' method.'']],
         st_error = [], st_pyplot = []\<rparr>,
        \<lparr>columns = [(Name ''A'', Numeric)], rows = [(0, [Num 1]), (1, [Null])]\<rparr>)"
  using fill_missing_values_noop_logged [of "''median''" None
          "\<lparr>log = [], st_error = [], st_pyplot = []\<rparr>"
          "\<lparr>columns = [(Name ''A'', Numeric)], rows = [(0, [Num 1]), (1, [Null])]\<rparr>"]
  by simp

subsection \<open>Forward fill\<close>

lemma length_pad_from: "length (pad_from c xs) = length xs"
  by (induction xs arbitrary: c) auto

lemma pad_from_keeps:
  "k < length xs \<Longrightarrow> xs ! k \<noteq> Null \<Longrightarrow> pad_from c xs ! k = xs ! k"
proof (induction xs arbitrary: c k)
  case Nil
  then show ?case by simp
next
  case (Cons x xs)
  then show ?case by (cases k) auto
qed

lemma pad_from_leading:
  "k < length xs \<Longrightarrow> \<forall>i\<le>k. xs ! i = Null \<Longrightarrow> pad_from c xs ! k = c"
proof (induction xs arbitrary: k)
  case Nil
  then show ?case by simp
next
  case (Cons x xs)
  from Cons.prems have x: "x = Null" by auto
  show ?case
  proof (cases k)
    case 0
    with x show ?thesis by simp
  next
    case (Suc n)
    with Cons.prems have "n < length xs" "\<forall>i\<le>n. xs ! i = Null" by auto
    with Cons.IH x Suc show ?thesis by simp
  qed
qed

lemma pad_from_nearest:
  "k < length xs \<Longrightarrow> i < k \<Longrightarrow> xs ! i \<noteq> Null \<Longrightarrow> \<forall>m. i < m \<and> m \<le> k \<longrightarrow> xs ! m = Null
   \<Longrightarrow> pad_from c xs ! k = xs ! i"
proof (induction xs arbitrary: c k i)
  case Nil
  then show ?case by simp
next
  case (Cons x xs)
  from Cons.prems obtain n where k: "k = Suc n" by (cases k) auto
  show ?case
  proof (cases i)
    case 0
    with Cons.prems k have x: "x \<noteq> Null" and n: "n < length xs" and nulls: "\<forall>m\<le>n. xs ! m = Null"
      by auto
    from pad_from_leading [OF n nulls] x k 0 show ?thesis by simp
  next
    case (Suc i')
    with Cons.prems k have "n < length xs" "i' < n" "xs ! i' \<noteq> Null"
      "\<forall>m. i' < m \<and> m \<le> n \<longrightarrow> xs ! m = Null" by auto
    from Cons.IH [OF this] k Suc show ?thesis by simp
  qed
qed


lemma fill_ffill_eq:
  "fill_missing_values s df ''ffill'' v =
     (log_action s (Log_entry ''fill_missing_values''
        [Text ''Filled missing values using '', Sub_str ''ffill'', Text '' method.'']),
      fill_columns pad_1d df)"
  by (simp add: fill_missing_values_def fill_body_def)

lemma cell_fill_columns:
  assumes "k < len df" "j < length (snd (rows df ! k))" "\<And>xs. length (f xs) = length xs"
  shows "cell (fill_columns f df) k j = f (column_cells df j) ! k"
  using assms by (simp add: cell_def cell_at_def fill_columns_def len_def)

lemma column_cells_nth:
  "k < len df \<Longrightarrow> column_cells df j ! k = cell df k j"
  by (simp add: column_cells_def cell_def len_def)

text \<open>
  Claim C6. \<open>fill_missing_values\<close> with method "ffill" keeps the columns, the number
  of rows and the row labels, and works on each column by itself: a cell that is not
  missing stays; a missing cell takes the value of the nearest row above it whose cell
  in that column is not missing; a missing cell with only missing cells above it in
  its column stays missing.
\<close>

theorem fill_missing_values_ffill:
  assumes "k < len df" and "j < length (snd (rows df ! k))"
  shows "columns (snd (fill_missing_values s df ''ffill'' None)) = columns df
    \<and> len (snd (fill_missing_values s df ''ffill'' None)) = len df
    \<and> fst (rows (snd (fill_missing_values s df ''ffill'' None)) ! k) = fst (rows df ! k)
    \<and> (cell df k j \<noteq> Null \<longrightarrow>
         cell (snd (fill_missing_values s df ''ffill'' None)) k j = cell df k j)
    \<and> (\<forall>i<k. cell df k j = Null \<and> cell df i j \<noteq> Null
           \<and> (\<forall>m. i < m \<and> m < k \<longrightarrow> cell df m j = Null) \<longrightarrow>
         cell (snd (fill_missing_values s df ''ffill'' None)) k j = cell df i j)
    \<and> ((\<forall>i\<le>k. cell df i j = Null) \<longrightarrow>
         cell (snd (fill_missing_values s df ''ffill'' None)) k j = Null)"
proof -
  let ?col = "column_cells df j"
  let ?out = "snd (fill_missing_values s df ''ffill'' None)"
  have out: "?out = fill_columns pad_1d df"
    by (simp add: fill_ffill_eq)
  have klen: "k < length ?col"
    using assms(1) by (simp add: column_cells_def len_def)
  have col: "\<And>i. i \<le> k \<Longrightarrow> ?col ! i = cell df i j"
    using assms(1) by (simp add: column_cells_nth)
  have c: "cell ?out k j = pad_from Null ?col ! k"
    unfolding out using cell_fill_columns [OF assms, of pad_1d]
    by (simp add: pad_1d_def length_pad_from)
  have frame: "columns ?out = columns df" "len ?out = len df"
      "fst (rows ?out ! k) = fst (rows df ! k)"
    using assms(1) by (simp_all add: out fill_columns_def len_def)
  have keep: "cell df k j \<noteq> Null \<longrightarrow> cell ?out k j = cell df k j"
    using pad_from_keeps [OF klen, of Null] col [of k] c by simp
  have near: "\<forall>i<k. cell df k j = Null \<and> cell df i j \<noteq> Null
           \<and> (\<forall>m. i < m \<and> m < k \<longrightarrow> cell df m j = Null) \<longrightarrow> cell ?out k j = cell df i j"
  proof (intro allI impI)
    fix i
    assume ik: "i < k"
      and h: "cell df k j = Null \<and> cell df i j \<noteq> Null \<and> (\<forall>m. i < m \<and> m < k \<longrightarrow> cell df m j = Null)"
    have a: "?col ! i \<noteq> Null" using h ik col [of i] by simp
    have b: "\<forall>m. i < m \<and> m \<le> k \<longrightarrow> ?col ! m = Null"
    proof (intro allI impI)
      fix m assume m: "i < m \<and> m \<le> k"
      then have "cell df m j = Null" using h by (cases "m = k") auto
      with m col [of m] show "?col ! m = Null" by simp
    qed
    from pad_from_nearest [OF klen ik a b, of Null] c col [of i] ik
    show "cell ?out k j = cell df i j" by simp
  qed
  have lead: "(\<forall>i\<le>k. cell df i j = Null) \<longrightarrow> cell ?out k j = Null"
  proof
    assume "\<forall>i\<le>k. cell df i j = Null"
    then have "\<forall>i\<le>k. ?col ! i = Null" using col by simp
    from pad_from_leading [OF klen this, of Null] c show "cell ?out k j = Null" by simp
  qed
  from frame keep near lead show ?thesis by blast
qed

theorem fill_missing_values_ffill_witness:
  "snd (fill_missing_values s0 T6 ''ffill'' None) =
     \<lparr>columns = [(Name ''A'', Numeric), (Name ''B'', Object)],
      rows = [(0, [Null, Str ''x'']), (1, [Num 1, Str ''x'']), (5, [Num 1, Str ''x''])]\<rparr>
   \<and> 2 < len T6 \<and> 0 < length (snd (rows T6 ! 2)) \<and> cell T6 2 0 = Null \<and> cell T6 1 0 = Num 1
   \<and> cell (snd (fill_missing_values s0 T6 ''ffill'' None)) 2 0 = cell T6 1 0
   \<and> cell T6 0 0 = Null \<and> cell (snd (fill_missing_values s0 T6 ''ffill'' None)) 0 0 = Null"
  using fill_missing_values_ffill [of 2 T6 0 s0] fill_missing_values_ffill [of 0 T6 0 s0]
  by (simp add: T6_def s0_def cell_def cell_at_def len_def fill_missing_values_def fill_body_def
        fill_columns_def pad_1d_def column_cells_def log_action_def upt_rec)

subsection \<open>Removing duplicates\<close>

lemma keep_first_avoids:
  "r \<in> set (keep_first seen rs) \<Longrightarrow> map dup_key (snd r) \<notin> set seen"
proof (induction rs arbitrary: seen)
  case Nil
  then show ?case by simp
next
  case (Cons x rs)
  show ?case
  proof (cases "map dup_key (snd x) \<in> set seen")
    case True
    with Cons show ?thesis by simp
  next
    case False
    with Cons.prems have "r = x \<or> r \<in> set (keep_first (map dup_key (snd x) # seen) rs)"
      by simp
    then show ?thesis
    proof
      assume "r = x"
      with False show ?thesis by simp
    next
      assume "r \<in> set (keep_first (map dup_key (snd x) # seen) rs)"
      from Cons.IH [OF this] show ?thesis by simp
    qed
  qed
qed

lemma keep_first_distinct:
  "distinct (map (\<lambda>r. map dup_key (snd r)) (keep_first seen rs))"
proof (induction rs arbitrary: seen)
  case Nil
  then show ?case by simp
next
  case (Cons x rs)
  show ?case
  proof (cases "map dup_key (snd x) \<in> set seen")
    case True
    with Cons.IH show ?thesis by simp
  next
    case False
    have "map dup_key (snd x) \<notin> (\<lambda>r. map dup_key (snd r)) ` set (keep_first (map dup_key (snd x) # seen) rs)"
    proof
      assume "map dup_key (snd x) \<in> (\<lambda>r. map dup_key (snd r)) ` set (keep_first (map dup_key (snd x) # seen) rs)"
      then obtain r where r: "r \<in> set (keep_first (map dup_key (snd x) # seen) rs)"
        and k: "map dup_key (snd x) = map dup_key (snd r)" by blast
      from keep_first_avoids [OF r] k show False by simp
    qed
    with False Cons.IH show ?thesis by simp
  qed
qed

lemma keep_first_keys:
  "distinct (map (\<lambda>r. map dup_key (snd r)) (keep_first seen rs))
   \<and> set (map (\<lambda>r. map dup_key (snd r)) (keep_first seen rs)) \<inter> set seen = {}"
  using keep_first_distinct [of seen rs] keep_first_avoids [of _ seen rs] by auto

lemma keep_first_fixed:
  "distinct (map (\<lambda>r. map dup_key (snd r)) rs)
   \<Longrightarrow> set (map (\<lambda>r. map dup_key (snd r)) rs) \<inter> set seen = {}
   \<Longrightarrow> keep_first seen rs = rs"
  by (induction rs arbitrary: seen) auto

lemma keep_first_idem: "keep_first [] (keep_first [] rs) = keep_first [] rs"
  using keep_first_keys [of "[]" rs] by (intro keep_first_fixed) auto

lemma drop_duplicates_idem: "drop_duplicates (drop_duplicates df) = drop_duplicates df"
  by (simp add: drop_duplicates_def keep_first_idem)

text \<open>
  Claim C5. Removing duplicates twice gives the table that removing them once gives,
  whatever the session the second call runs in; the second call removes nothing, and
  its log entry says so.
\<close>

theorem remove_duplicates_idempotent:
  "snd (remove_duplicates s' (snd (remove_duplicates s df))) = snd (remove_duplicates s df)
   \<and> log (fst (remove_duplicates s' (snd (remove_duplicates s df)))) =
       log s' @ [Log_entry ''remove_duplicates''
                  [Text ''Removed '', Sub_int 0, Text '' duplicate rows.'']]"
  by (simp add: remove_duplicates_def Let_def drop_duplicates_idem log_action_def)

subsection \<open>Filtering by rules\<close>

lemma compare_each_holds:
  "v \<noteq> Null \<Longrightarrow> compare_each c cells v = Inr keep \<Longrightarrow> keep = map (\<lambda>x. holds c x v) cells"
proof (induction cells arbitrary: keep)
  case Nil
  then show ?case by simp
next
  case (Cons x xs)
  then show ?case
    by (auto simp: holds_def split: sum.splits if_splits)
qed

lemma series_compare_holds:
  assumes "series_compare c dt cells v = Inr keep"
  shows "keep = map (\<lambda>x. holds c x v) cells"
proof (cases "v = Null")
  case True
  with assms show ?thesis by (simp add: series_compare_def holds_def)
next
  case False
  with assms have "compare_each c cells v = Inr keep"
    by (simp add: series_compare_def split: if_splits)
  from compare_each_holds [OF False this] show ?thesis .
qed

lemma position_absent: "x \<notin> set ys \<Longrightarrow> position x ys = None"
  by (induction ys) auto

lemma zip_filter_map: "map fst (filter snd (zip xs (map f xs))) = filter f xs"
  by (induction xs) auto

lemma filter_by_rows:
  assumes "filter_by df c cmp v = Inr df'"
  shows "\<exists>j. position c (map fst (columns df)) = Some j
           \<and> df' = df\<lparr>rows := filter (\<lambda>r. holds cmp (cell_at (snd r) j) v) (rows df)\<rparr>"
proof -
  from assms obtain j keep where j: "position c (map fst (columns df)) = Some j"
    and k: "series_compare cmp (snd (columns df ! j)) (column_cells df j) v = Inr keep"
    and d: "df' = boolean_index df keep"
    by (auto simp: filter_by_def split: option.splits sum.splits)
  from series_compare_holds [OF k]
  have "keep = map (\<lambda>r. holds cmp (cell_at (snd r) j) v) (rows df)"
    by (simp add: column_cells_def)
  with d j show ?thesis by (simp add: boolean_index_def zip_filter_map)
qed

lemma rule_step_rows:
  assumes "rule_step df r = Inr df'"
  shows "df' = df\<lparr>rows := filter (\<lambda>row. satisfies (columns df) r (snd row)) (rows df)\<rparr>"
proof -
  from assms obtain c k v where f: "column r = Some c" "condition r = Some k" "val r = Some v"
    by (auto simp: rule_step_def split: option.splits)
  show ?thesis
  proof (cases "comparator_of k")
    case None
    then have "k \<noteq> ''greater_than''" "k \<noteq> ''less_than''" "k \<noteq> ''equals''"
      by (auto simp: comparator_of_def split: if_splits)
    with assms f have "df' = df" by (simp add: rule_step_def)
    with f None show ?thesis by (simp add: satisfies_def)
  next
    case (Some cmp)
    with assms f have "filter_by df c cmp v = Inr df'"
      by (auto simp: rule_step_def comparator_of_def split: if_splits)
    from filter_by_rows [OF this] f Some show ?thesis
      by (auto simp: satisfies_def)
  qed
qed

lemma rules_loop_rows:
  "rules_loop df R = Inr df'
   \<Longrightarrow> df' = df\<lparr>rows := filter (\<lambda>row. list_all (\<lambda>r. satisfies (columns df) r (snd row)) R) (rows df)\<rparr>"
proof (induction R arbitrary: df)
  case Nil
  then show ?case by simp
next
  case (Cons r R)
  from Cons.prems obtain d where d: "rule_step df r = Inr d" and l: "rules_loop d R = Inr df'"
    by (auto split: sum.splits)
  from rule_step_rows [OF d]
  have d': "d = df\<lparr>rows := filter (\<lambda>row. satisfies (columns df) r (snd row)) (rows df)\<rparr>" .
  then have cols: "columns d = columns df" by simp
  from Cons.IH [OF l] cols d' show ?case
    by (simp add: conj_commute)
qed

lemma rule_step_absent:
  assumes "column r = Some c" "condition r = Some k" "val r = Some v"
    and "k \<in> {''greater_than'', ''less_than'', ''equals''}"
    and "c \<notin> set (map fst (columns df))"
  shows "rule_step df r = Inl KeyError"
proof -
  have "\<And>cmp. filter_by df c cmp v = Inl KeyError"
    using position_absent [OF assms(5)] by (simp add: filter_by_def)
  with assms(1-4) show ?thesis by (auto simp: rule_step_def)
qed

lemma apply_rules_no_error:
  assumes "st_error (fst (apply_rules s df R)) = st_error s"
  shows "\<exists>df'. rules_loop df R = Inr df'"
  using assms by (cases "rules_loop df R") (auto simp: apply_rules_def report_def)

text \<open>
  Claim C2, as amended. When \<open>apply_rules\<close> reports no error, its result is the input
  table restricted to the rows that satisfy every rule of the list, in their order and
  with their labels, and the log gains the entry with the rules and the number of rows
  left; a rule whose condition is none of the three comparators is satisfied by every
  row. When the first rule has one of the three comparators and names a column that the
  table lacks, the call returns the input table, reports the KeyError and appends
  nothing to the log.
\<close>

theorem apply_rules_filters:
  "(st_error (fst (apply_rules s df R)) = st_error s \<longrightarrow>
      snd (apply_rules s df R) =
        df\<lparr>rows := filter (\<lambda>row. list_all (\<lambda>r. satisfies (columns df) r (snd row)) R) (rows df)\<rparr>
      \<and> log (fst (apply_rules s df R)) =
          log s @ [Log_entry ''apply_rules''
                    [Text ''Applied rules: '', Sub_rules R, Text ''. Remaining rows: '',
                     Sub_int (int (len (snd (apply_rules s df R))))]])
   \<and> (column r = Some c \<and> condition r = Some k \<and> val r = Some v
       \<and> k \<in> {''greater_than'', ''less_than'', ''equals''}
       \<and> c \<notin> set (map fst (columns df)) \<longrightarrow>
      apply_rules s df (r # R) =
        (s\<lparr>st_error := st_error s @ [[Text ''Error applying rules: '', Sub_error KeyError]]\<rparr>, df))"
proof (intro conjI impI)
  assume "st_error (fst (apply_rules s df R)) = st_error s"
  from apply_rules_no_error [OF this] obtain df' where l: "rules_loop df R = Inr df'" ..
  from rules_loop_rows [OF l] l
  show "snd (apply_rules s df R) =
        df\<lparr>rows := filter (\<lambda>row. list_all (\<lambda>r. satisfies (columns df) r (snd row)) R) (rows df)\<rparr>"
    by (simp add: apply_rules_def)
  from l show "log (fst (apply_rules s df R)) =
          log s @ [Log_entry ''apply_rules''
                    [Text ''Applied rules: '', Sub_rules R, Text ''. Remaining rows: '',
                     Sub_int (int (len (snd (apply_rules s df R))))]]"
    by (simp add: apply_rules_def log_action_def)
next
  assume "column r = Some c \<and> condition r = Some k \<and> val r = Some v
       \<and> k \<in> {''greater_than'', ''less_than'', ''equals''}
       \<and> c \<notin> set (map fst (columns df))"
  then have "rule_step df r = Inl KeyError" by (intro rule_step_absent) auto
  then show "apply_rules s df (r # R) =
        (s\<lparr>st_error := st_error s @ [[Text ''Error applying rules: '', Sub_error KeyError]]\<rparr>, df)"
    by (simp add: apply_rules_def report_def)
qed

theorem apply_rules_filters_witness:
  "st_error (fst (apply_rules s0 T1 [gt10, skipB])) = st_error s0
   \<and> snd (apply_rules s0 T1 [gt10, skipB]) = T1\<lparr>rows := [(1, [Num 15]), (2, [Num 25])]\<rparr>
   \<and> log (fst (apply_rules s0 T1 [gt10, skipB])) =
       [Log_entry ''apply_rules''
         [Text ''Applied rules: '', Sub_rules [gt10, skipB], Text ''. Remaining rows: '', Sub_int 2]]
   \<and> Name ''B'' \<notin> set (map fst (columns T1))
   \<and> apply_rules s0 T1 [missingB, gt10] =
       (s0\<lparr>st_error := [[Text ''Error applying rules: '', Sub_error KeyError]]\<rparr>, T1)"
  using apply_rules_filters [of s0 T1 "[gt10, skipB]" missingB "Name ''B''" "''greater_than''" "Num 0"]
    apply_rules_filters [of s0 T1 "[gt10]" missingB "Name ''B''" "''greater_than''" "Num 0"]
  by (simp add: apply_rules_def rule_step_def filter_by_def series_compare_def
        boolean_index_def column_cells_def cell_at_def log_action_def report_def len_def
        satisfies_def comparator_of_def holds_def T1_def gt10_def missingB_def skipB_def s0_def)

text \<open>
  The claim as stated fails twice. With a first rule on the absent column B the call
  returns the whole table, whose row with A = 5 does not satisfy the second rule
  A > 10. With a rule on the absent column B whose condition is not a comparator, the
  rule is skipped, and the call returns the table filtered by the other rule, not the
  input table.
\<close>

theorem apply_rules_counterexample:
  "snd (apply_rules s0 T1 [missingB, gt10]) = T1
   \<and> (0, [Num 5]) \<in> set (rows (snd (apply_rules s0 T1 [missingB, gt10])))
   \<and> \<not> satisfies (columns T1) gt10 [Num 5]
   \<and> column skipB = Some (Name ''B'') \<and> Name ''B'' \<notin> set (map fst (columns T1))
   \<and> snd (apply_rules s0 T1 [gt10, skipB]) \<noteq> T1"
  by (simp add: apply_rules_def rule_step_def filter_by_def series_compare_def
        boolean_index_def column_cells_def cell_at_def log_action_def report_def len_def
        satisfies_def comparator_of_def holds_def T1_def gt10_def missingB_def skipB_def s0_def)

text \<open>
  Claim C9. A rule with its three keys whose condition is none of "greater_than",
  "less_than" and "equals" is skipped: its pass of the loop leaves the table as it is
  and raises nothing, so a rule list gives the same outcome (table or error) with the
  rule as without it; called with that rule alone, \<open>apply_rules\<close> returns the input
  table and appends its log entry, reporting no error.
\<close>

theorem apply_rules_skips_unknown:
  assumes "column r = Some c" "condition r = Some k" "val r = Some v"
    and "k \<notin> {''greater_than'', ''less_than'', ''equals''}"
  shows "rule_step df r = Inr df
       \<and> rules_loop df (R1 @ r # R2) = rules_loop df (R1 @ R2)
       \<and> apply_rules s df [r] =
           (s\<lparr>log := log s @ [Log_entry ''apply_rules''
                  [Text ''Applied rules: '', Sub_rules [r], Text ''. Remaining rows: '',
                   Sub_int (int (len df))]]\<rparr>, df)"
proof -
  have step: "\<And>d. rule_step d r = Inr d"
    using assms by (simp add: rule_step_def)
  have "rules_loop df (R1 @ r # R2) = rules_loop df (R1 @ R2)"
    by (induction R1 arbitrary: df) (auto simp: step split: sum.splits)
  with step show ?thesis by (simp add: apply_rules_def log_action_def)
qed


theorem apply_rules_skips_unknown_witness:
  "rule_step T1 skipB = Inr T1
   \<and> rules_loop T1 ([gt10] @ skipB # []) = rules_loop T1 ([gt10] @ [])
   \<and> apply_rules s0 T1 [skipB] =
       (s0\<lparr>log := [Log_entry ''apply_rules''
                     [Text ''Applied rules: '', Sub_rules [skipB], Text ''. Remaining rows: '',
                      Sub_int 3]]\<rparr>, T1)"
  using apply_rules_skips_unknown [of skipB "Name ''B''" "''not_equals''" "Num 0" T1 "[gt10]" "[]" s0]
  by (simp add: skipB_def s0_def T1_def len_def)

subsection \<open>A failing call\<close>

text \<open>
  What a failing loop hands to the handler: the table as the steps before the failing
  one left it.
\<close>

lemma rules_loop_failure:
  "rules_loop df R = Inl (e, d)
   \<Longrightarrow> \<exists>R1 r R2. R = R1 @ r # R2 \<and> rules_loop df R1 = Inr d \<and> rule_step d r = Inl e"
proof (induction R arbitrary: df)
  case Nil
  then show ?case by simp
next
  case (Cons x R)
  show ?case
  proof (cases "rule_step df x")
    case (Inl e')
    with Cons.prems have "e' = e" "d = df" by simp_all
    with Inl have "x # R = [] @ x # R \<and> rules_loop df [] = Inr d \<and> rule_step d x = Inl e"
      by simp
    then show ?thesis by blast
  next
    case (Inr df')
    with Cons.prems have "rules_loop df' R = Inl (e, d)" by simp
    from Cons.IH [OF this] obtain R1 r R2 where
      "R = R1 @ r # R2" "rules_loop df' R1 = Inr d" "rule_step d r = Inl e" by blast
    with Inr have "x # R = (x # R1) @ r # R2 \<and> rules_loop df (x # R1) = Inr d \<and> rule_step d r = Inl e"
      by simp
    then show ?thesis by blast
  qed
qed

lemma operations_loop_failure:
  "operations_loop df ops = Inl (e, d)
   \<Longrightarrow> \<exists>before failing rest. ops = before @ failing # rest \<and> operations_loop df before = Inr d
         \<and> operation_step d failing = Inl e"
proof (induction ops arbitrary: df)
  case Nil
  then show ?case by simp
next
  case (Cons x ops)
  show ?case
  proof (cases "operation_step df x")
    case (Inl e')
    with Cons.prems have "e' = e" "d = df" by simp_all
    with Inl have "x # ops = [] @ x # ops \<and> operations_loop df [] = Inr d
        \<and> operation_step d x = Inl e" by simp
    then show ?thesis by blast
  next
    case (Inr df')
    with Cons.prems have "operations_loop df' ops = Inl (e, d)" by simp
    from Cons.IH [OF this] obtain o1 f o2 where
      "ops = o1 @ f # o2" "operations_loop df' o1 = Inr d" "operation_step d f = Inl e" by blast
    with Inr have "x # ops = (x # o1) @ f # o2 \<and> operations_loop df (x # o1) = Inr d
        \<and> operation_step d f = Inl e" by simp
    then show ?thesis by blast
  qed
qed

text \<open>
  Claim C1 (the code departs from it). The second rule names the absent column B and
  raises KeyError; the handler returns the local \<^verbatim>\<open>df\<close>, which the first rule has
  already filtered, so the call returns two rows and not the three of the input. In
  the same way a batch whose second operation has no "action" key returns the table
  with the first operation's row added.
\<close>

theorem failing_call_returns_partial_table:
  "apply_rules s0 T1 [gt10, missingB] =
       (s0\<lparr>st_error := [[Text ''Error applying rules: '', Sub_error KeyError]]\<rparr>,
        T1\<lparr>rows := [(1, [Num 15]), (2, [Num 25])]\<rparr>)
   \<and> snd (apply_rules s0 T1 [gt10, missingB]) \<noteq> T1
   \<and> add_or_delete_rows s0 T3 [add_op [(''A'', Num 99)], no_action_op] =
       (s0\<lparr>st_error := [[Text ''Error performing operations: '', Sub_error KeyError]]\<rparr>,
        T3\<lparr>rows := [(0, [Num 10]), (1, [Num 20]), (2, [Num 30]), (3, [Num 99])]\<rparr>)
   \<and> snd (add_or_delete_rows s0 T3 [add_op [(''A'', Num 99)], no_action_op]) \<noteq> T3"
  by (simp add: apply_rules_def rule_step_def filter_by_def series_compare_def
        boolean_index_def column_cells_def cell_at_def log_action_def report_def len_def
        satisfies_def comparator_of_def holds_def T1_def gt10_def missingB_def skipB_def s0_def
        add_or_delete_rows_def operation_step_def df_drop_def pd_concat_def
        T3_def add_op_def no_action_op_def upt_rec)

subsection \<open>Deleting rows\<close>

lemma delete_skipped:
  assumes "op_action operation = Some ''delete''"
    and "index operation = None \<or> (\<exists>i. index operation = Some i \<and> (i < 0 \<or> int (len df) \<le> i))"
  shows "operation_step df operation = Inr df"
  using assms by (auto simp: operation_step_def)

text \<open>
  Where labels and positions agree (a table as loaded, or right after an "add", which
  renumbers the rows) a delete removes by position. A delete does not renumber, so the
  agreement is lost after it.
\<close>

lemma filter_label_position:
  assumes "map fst rs = map int [0..<length rs]" and "k < length rs"
  shows "filter (\<lambda>r. fst r \<noteq> int k) rs = take k rs @ drop (Suc k) rs"
proof -
  have lab: "\<And>j. j < length rs \<Longrightarrow> fst (rs ! j) = int j"
  proof -
    fix j assume j: "j < length rs"
    then have "fst (rs ! j) = map fst rs ! j" by simp
    also have "\<dots> = map int [0..<length rs] ! j" using assms(1) by simp
    also have "\<dots> = int j" using j by simp
    finally show "fst (rs ! j) = int j" .
  qed
  have split: "rs = take k rs @ rs ! k # drop (Suc k) rs"
    using assms(2) by (rule id_take_nth_drop)
  have a: "filter (\<lambda>r. fst r \<noteq> int k) (take k rs) = take k rs"
  proof (rule filter_True, rule ballI)
    fix r assume "r \<in> set (take k rs)"
    then obtain j where "j < k" "j < length rs" "r = rs ! j"
      by (auto simp: in_set_conv_nth)
    with lab show "fst r \<noteq> int k" by simp
  qed
  have b: "filter (\<lambda>r. fst r \<noteq> int k) (drop (Suc k) rs) = drop (Suc k) rs"
  proof (rule filter_True, rule ballI)
    fix r assume "r \<in> set (drop (Suc k) rs)"
    then obtain j where j: "j < length (drop (Suc k) rs)" and r: "r = drop (Suc k) rs ! j"
      by (auto simp: in_set_conv_nth)
    from j have "Suc k + j < length rs" by simp
    moreover from r j have "r = rs ! (Suc k + j)" by simp
    ultimately have "fst r = int (Suc k + j)" using lab by simp
    then show "fst r \<noteq> int k" by simp
  qed
  have c: "\<not> fst (rs ! k) \<noteq> int k" using lab [OF assms(2)] by simp
  have "filter (\<lambda>r. fst r \<noteq> int k) rs =
        filter (\<lambda>r. fst r \<noteq> int k) (take k rs @ rs ! k # drop (Suc k) rs)"
    using split by simp
  also have "\<dots> = take k rs @ drop (Suc k) rs"
    using a b c by simp
  finally show ?thesis .
qed

lemma delete_by_position_when_labelled_in_order:
  assumes "map fst (rows df) = map int [0..<len df]"
    and "op_action operation = Some ''delete''"
  shows "operation_step df operation = Inr (delete_at_position df (index operation))"
proof (cases "index operation")
  case None
  with assms(2) show ?thesis by (simp add: operation_step_def delete_at_position_def)
next
  case (Some i)
  show ?thesis
  proof (cases "0 \<le> i \<and> i < int (len df)")
    case False
    with Some assms(2) show ?thesis
      by (auto simp: operation_step_def delete_at_position_def)
  next
    case True
    then have k: "nat i < length (rows df)" and i: "i = int (nat i)" by (auto simp: len_def)
    from assms(1) have labs: "map fst (rows df) = map int [0..<length (rows df)]"
      by (simp add: len_def)
    have "i \<in> set (map fst (rows df))"
      unfolding labs using k i by (metis atLeast0LessThan imageI lessThan_iff list.set_map set_upt)
    moreover have "filter (\<lambda>r. fst r \<noteq> i) (rows df) =
        take (nat i) (rows df) @ drop (Suc (nat i)) (rows df)"
      using filter_label_position [OF labs k] i by simp
    ultimately show ?thesis
      using Some True assms(2)
      by (simp add: operation_step_def delete_at_position_def df_drop_def)
  qed
qed

lemma pd_concat_relabels:
  "map fst (rows (pd_concat df new)) = map int [0..<len (pd_concat df new)]"
  by (simp add: pd_concat_def Let_def len_def)

text \<open>
  Claim C4 (the code departs from it). \<^verbatim>\<open>df.drop\<close> removes by index label, while the
  range test before it counts positions. On a table of three rows labelled 0, 1, 2,
  deleting index 0 leaves the labels 1 and 2. A second delete of index 1 then removes
  the row labelled 1, which stands at position 0: the call ends with the third row
  only, where deleting by position would leave the second. A second delete of index 0,
  a valid position, finds no label 0: \<^verbatim>\<open>drop\<close> raises KeyError and the call
  reports an error.
\<close>

theorem add_or_delete_rows_deletes_by_label:
  "add_or_delete_rows s0 T3 [delete_op 0, delete_op 1] =
     (s0\<lparr>log := [Log_entry ''add_or_delete_rows''
                   [Text ''Performed operations: '', Sub_operations [delete_op 0, delete_op 1],
                    Text ''. Final rows: '', Sub_int 1]]\<rparr>,
      T3\<lparr>rows := [(2, [Num 30])]\<rparr>)
   \<and> delete_at_position (delete_at_position T3 (Some 0)) (Some 1) = T3\<lparr>rows := [(1, [Num 20])]\<rparr>
   \<and> add_or_delete_rows s0 T3 [delete_op 0, delete_op 0] =
     (s0\<lparr>st_error := [[Text ''Error performing operations: '', Sub_error KeyError]]\<rparr>,
      T3\<lparr>rows := [(1, [Num 20]), (2, [Num 30])]\<rparr>)"
  by (simp add: add_or_delete_rows_def operation_step_def df_drop_def len_def log_action_def
        report_def T3_def s0_def delete_op_def delete_at_position_def)

subsection \<open>Sorting\<close>

lemma nth_filter_positions:
  "map (\<lambda>i. xs ! i) (filter (\<lambda>i. P (xs ! i)) [0..<length xs]) = filter P xs"
proof -
  have "filter P (map (\<lambda>i. xs ! i) [0..<length xs]) =
        map (\<lambda>i. xs ! i) (filter (P \<circ> (\<lambda>i. xs ! i)) [0..<length xs])"
    by (rule filter_map)
  then show ?thesis by (simp add: map_nth comp_def)
qed

lemma mset_positions_split:
  "mset (filter (\<lambda>i. P i) [0..<n]) + mset (filter (\<lambda>i. \<not> P i) [0..<n]) = mset [0..<n]"
  by (metis mset_filter multiset_partition)

lemma mset_map_nth_perm:
  assumes "mset p = mset [0..<length xs]"
  shows "mset (map (\<lambda>i. xs ! i) p) = mset xs"
proof -
  have "mset (map (\<lambda>i. xs ! i) p) = image_mset (\<lambda>i. xs ! i) (mset p)" by simp
  also have "\<dots> = image_mset (\<lambda>i. xs ! i) (mset [0..<length xs])" using assms by simp
  also have "\<dots> = mset (map (\<lambda>i. xs ! i) [0..<length xs])" by simp
  also have "\<dots> = mset xs" by (simp add: map_nth)
  finally show ?thesis .
qed

lemma perm_positions_bound:
  assumes "mset p = mset [0..<n]"
  shows "\<forall>i\<in>set p. i < n"
proof -
  from assms have "set p = set [0..<n]" by (rule mset_eq_setD)
  then show ?thesis by simp
qed

lemma sorted_wrt_all_null:
  "\<forall>y\<in>set ys. y = Null \<Longrightarrow> ordered asc ys"
  unfolding ordered_def by (induction ys) auto

lemma ordered_append:
  assumes "sorted_wrt key_le ks" and "\<forall>k\<in>set ks. k \<noteq> Null" and "\<forall>y\<in>set nulls. y = Null"
  shows "ordered asc ((if asc then ks else rev ks) @ nulls)"
proof -
  let ?R = "\<lambda>x y. y = Null \<or> (x \<noteq> Null \<and> (if asc then key_le x y else key_le y x))"
  have a: "sorted_wrt ?R (if asc then ks else rev ks)"
  proof (cases asc)
    case True
    have "sorted_wrt ?R ks"
      by (rule sorted_wrt_mono_rel [OF _ assms(1)]) (use assms(2) True in auto)
    with True show ?thesis by simp
  next
    case False
    have "sorted_wrt (\<lambda>x y. ?R y x) ks"
      by (rule sorted_wrt_mono_rel [OF _ assms(1)]) (use assms(2) False in auto)
    then have "sorted_wrt ?R (rev ks)" by (simp add: sorted_wrt_rev)
    with False show ?thesis by simp
  qed
  have b: "sorted_wrt ?R nulls"
    using sorted_wrt_all_null [OF assms(3), of asc] by (simp add: ordered_def)
  have c: "\<forall>x\<in>set (if asc then ks else rev ks). \<forall>y\<in>set nulls. ?R x y"
    using assms(3) by auto
  from a b c show ?thesis
    unfolding ordered_def sorted_wrt_append by blast
qed


lemma indexer_core:
  assumes ks: "ks = map (\<lambda>i. items ! i) idx" and perm: "mset p = mset [0..<length ks]"
  shows "mset (map (\<lambda>q. idx ! q) p) = mset idx"
    and "map (\<lambda>i. items ! i) (map (\<lambda>q. idx ! q) p) = map (\<lambda>q. ks ! q) p"
    and "set (map (\<lambda>q. ks ! q) p) = set ks"
proof -
  from ks have len: "length ks = length idx" by simp
  with perm have perm': "mset p = mset [0..<length idx]" by simp
  show "mset (map (\<lambda>q. idx ! q) p) = mset idx"
    by (rule mset_map_nth_perm [OF perm'])
  have pb: "\<forall>q\<in>set p. q < length idx"
    by (rule perm_positions_bound [OF perm'])
  have "\<And>q. q \<in> set p \<Longrightarrow> items ! (idx ! q) = ks ! q"
  proof -
    fix q assume "q \<in> set p"
    with pb have "q < length idx" by blast
    then show "items ! (idx ! q) = ks ! q" unfolding ks by simp
  qed
  then show "map (\<lambda>i. items ! i) (map (\<lambda>q. idx ! q) p) = map (\<lambda>q. ks ! q) p"
    by simp
  have "mset (map (\<lambda>q. ks ! q) p) = mset ks"
    by (rule mset_map_nth_perm [OF perm])
  then show "set (map (\<lambda>q. ks ! q) p) = set ks" by (rule mset_eq_setD)
qed

lemma present_positions:
  "map (\<lambda>i. items ! i) (filter (\<lambda>i. items ! i \<noteq> Null) [0..<length items]) = present items"
  unfolding present_def by (rule nth_filter_positions)

lemma missing_positions:
  "\<forall>y\<in>set (map (\<lambda>i. items ! i) (filter (\<lambda>i. items ! i = Null) [0..<length items])). y = Null"
  by simp

lemma present_not_null: "\<forall>k\<in>set (present items). k \<noteq> Null"
  by (simp add: present_def)

lemma nargsort_ascending:
  assumes cmp: "comparable (present items)"
    and srt: "sorts argsort (present items)"
  shows "\<exists>ix. nargsort argsort items True = Inr ix
            \<and> mset ix = mset [0..<length items]
            \<and> ordered True (map (\<lambda>i. items ! i) ix)"
proof -
  define nn_idx where "nn_idx = filter (\<lambda>i. items ! i \<noteq> Null) [0..<length items]"
  define nan_idx where "nan_idx = filter (\<lambda>i. items ! i = Null) [0..<length items]"
  define p where "p = argsort (present items)"
  define ix where "ix = map (\<lambda>q. nn_idx ! q) p @ nan_idx"
  have ks: "present items = map (\<lambda>i. items ! i) nn_idx"
    unfolding nn_idx_def by (rule present_positions [symmetric])
  from srt have perm: "mset p = mset [0..<length (present items)]"
    and sorted: "sorted_wrt key_le (map (\<lambda>q. present items ! q) p)"
    unfolding p_def by (simp_all add: sorts_def)
  note core = indexer_core [OF ks perm]
  have res: "nargsort argsort items True = Inr ix"
    using cmp unfolding nargsort_def Let_def ix_def nn_idx_def nan_idx_def p_def
    by (simp add: present_positions)
  have "mset ix = mset nn_idx + mset nan_idx"
    unfolding ix_def using core(1) by simp
  also have "\<dots> = mset [0..<length items]"
    unfolding nn_idx_def nan_idx_def
    using mset_positions_split [of "\<lambda>i. items ! i \<noteq> Null" "length items"] by simp
  finally have m: "mset ix = mset [0..<length items]" .
  have nonnull: "\<forall>k\<in>set (map (\<lambda>q. present items ! q) p). k \<noteq> Null"
    unfolding core(3) by (rule present_not_null)
  have nulls: "\<forall>y\<in>set (map (\<lambda>i. items ! i) nan_idx). y = Null"
    unfolding nan_idx_def by (rule missing_positions)
  have eq: "map (\<lambda>i. items ! i) ix =
        (if True then map (\<lambda>q. present items ! q) p else rev (map (\<lambda>q. present items ! q) p))
        @ map (\<lambda>i. items ! i) nan_idx"
    unfolding ix_def using core(2) by simp
  have "ordered True (map (\<lambda>i. items ! i) ix)"
    unfolding eq by (rule ordered_append [OF sorted nonnull nulls])
  with res m show ?thesis by blast
qed

lemma nargsort_descending:
  assumes cmp: "comparable (present items)"
    and srt: "sorts argsort (rev (present items))"
  shows "\<exists>ix. nargsort argsort items False = Inr ix
            \<and> mset ix = mset [0..<length items]
            \<and> ordered False (map (\<lambda>i. items ! i) ix)"
proof -
  define nn_idx where "nn_idx = filter (\<lambda>i. items ! i \<noteq> Null) [0..<length items]"
  define nan_idx where "nan_idx = filter (\<lambda>i. items ! i = Null) [0..<length items]"
  define p where "p = argsort (rev (present items))"
  define ix where "ix = rev (map (\<lambda>q. rev nn_idx ! q) p) @ nan_idx"
  have ks: "rev (present items) = map (\<lambda>i. items ! i) (rev nn_idx)"
    unfolding nn_idx_def by (simp only: rev_map [symmetric] present_positions)
  from srt have perm: "mset p = mset [0..<length (rev (present items))]"
    and sorted: "sorted_wrt key_le (map (\<lambda>q. rev (present items) ! q) p)"
    unfolding p_def by (simp_all add: sorts_def)
  note core = indexer_core [OF ks perm]
  have res: "nargsort argsort items False = Inr ix"
    using cmp unfolding nargsort_def Let_def ix_def nn_idx_def nan_idx_def p_def
    by (simp add: present_positions)
  have "mset ix = mset nn_idx + mset nan_idx"
    unfolding ix_def using core(1) by simp
  also have "\<dots> = mset [0..<length items]"
    unfolding nn_idx_def nan_idx_def
    using mset_positions_split [of "\<lambda>i. items ! i \<noteq> Null" "length items"] by simp
  finally have m: "mset ix = mset [0..<length items]" .
  have nonnull: "\<forall>k\<in>set (map (\<lambda>q. rev (present items) ! q) p). k \<noteq> Null"
    unfolding core(3) using present_not_null [of items] by simp
  have nulls: "\<forall>y\<in>set (map (\<lambda>i. items ! i) nan_idx). y = Null"
    unfolding nan_idx_def by (rule missing_positions)
  have eq: "map (\<lambda>i. items ! i) ix =
        (if False then map (\<lambda>q. rev (present items) ! q) p
         else rev (map (\<lambda>q. rev (present items) ! q) p))
        @ map (\<lambda>i. items ! i) nan_idx"
    unfolding ix_def using core(2) by (simp add: rev_map)
  have "ordered False (map (\<lambda>i. items ! i) ix)"
    unfolding eq by (rule ordered_append [OF sorted nonnull nulls])
  with res m show ?thesis by blast
qed

lemma nargsort_result:
  assumes cmp: "comparable (present items)"
    and srt: "sorts argsort (if asc then present items else rev (present items))"
  shows "\<exists>ix. nargsort argsort items asc = Inr ix
            \<and> mset ix = mset [0..<length items]
            \<and> ordered asc (map (\<lambda>i. items ! i) ix)"
proof (cases asc)
  case True
  with srt have "sorts argsort (present items)" by simp
  from nargsort_ascending [OF cmp this] True show ?thesis by simp
next
  case False
  with srt have "sorts argsort (rev (present items))" by simp
  from nargsort_descending [OF cmp this] False show ?thesis by simp
qed

lemma sort_values_result:
  assumes col: "position c (map fst (columns df)) = Some j"
    and cmp: "comparable (present (column_cells df j))"
    and srt: "sorts argsort (if asc then present (column_cells df j)
                             else rev (present (column_cells df j)))"
  shows "\<exists>out. sort_values argsort df c asc = Inr out
           \<and> columns out = columns df
           \<and> mset (rows out) = mset (rows df)
           \<and> ordered asc (column_cells out j)"
proof -
  let ?items = "column_cells df j"
  from nargsort_result [OF cmp srt] obtain ix where
    r: "nargsort argsort ?items asc = Inr ix"
    and m: "mset ix = mset [0..<length ?items]"
    and o: "ordered asc (map (\<lambda>i. ?items ! i) ix)" by blast
  let ?out = "df\<lparr>rows := map (\<lambda>i. rows df ! i) ix\<rparr>"
  have len: "length ?items = length (rows df)" by (simp add: column_cells_def)
  have sv: "sort_values argsort df c asc = Inr ?out"
    using col r by (simp add: sort_values_def)
  have ms: "mset (rows ?out) = mset (rows df)"
    using mset_map_nth_perm [of ix "rows df"] m len by simp
  have b: "\<forall>i\<in>set ix. i < length (rows df)"
    using perm_positions_bound [of ix "length (rows df)"] m len by simp
  have "column_cells ?out j = map (\<lambda>i. ?items ! i) ix"
    using b by (simp add: column_cells_def)
  with o have "ordered asc (column_cells ?out j)" by simp
  with sv ms show ?thesis by simp
qed

text \<open>
  Claim C3, as amended. Let the column exist, let its keys that are not missing be
  pairwise comparable, and let the library's \<^verbatim>\<open>argsort\<close> do on them what it promises
  (list every position once, in an order that sorts the keys). Then \<open>sort_data\<close> returns
  the rows of the input, each as often as the input has it, with the same columns; the
  column is in non-decreasing order when ascending and in non-increasing order
  otherwise, rows with a missing key last; and the log gains its entry. Nothing is
  said of the order of rows with equal keys.
\<close>

theorem sort_data_sorted:
  assumes "position (Name c) (map fst (columns df)) = Some j"
    and "comparable (present (column_cells df j))"
    and "sorts argsort (if asc then present (column_cells df j)
                        else rev (present (column_cells df j)))"
  shows "mset (rows (snd (sort_data argsort s df c asc))) = mset (rows df)
       \<and> columns (snd (sort_data argsort s df c asc)) = columns df
       \<and> ordered asc (column_cells (snd (sort_data argsort s df c asc)) j)
       \<and> fst (sort_data argsort s df c asc) =
           s\<lparr>log := log s @ [Log_entry ''sort_data''
                  [Text ''Sorted data by '', Sub_str c, Text '' in '',
                   Sub_str (if asc then ''ascending'' else ''descending''), Text '' order.'']]\<rparr>"
proof -
  from sort_values_result [OF assms] obtain out where
    "sort_values argsort df (Name c) asc = Inr out" "columns out = columns df"
    "mset (rows out) = mset (rows df)" "ordered asc (column_cells out j)" by blast
  then show ?thesis by (simp add: sort_data_def log_action_def)
qed


lemma key_le_numbers:
  "as_number x \<noteq> None \<Longrightarrow> as_number y \<noteq> None \<Longrightarrow> key_le x y = (key_number x \<le> key_number y)"
  by (cases x; cases y) (simp_all add: key_le_def key_number_def)

lemma reversing_argsort_sorts:
  assumes "list_all (\<lambda>k. as_number k \<noteq> None) ks"
  shows "sorts reversing_argsort ks"
proof -
  let ?f = "\<lambda>p. - key_number (ks ! p)"
  let ?L = "sort_key ?f [0..<length ks]"
  have perm: "mset (rev ?L) = mset [0..<length ks]" by simp
  have "sorted (map ?f ?L)" by (rule sorted_sort_key)
  then have s1: "sorted_wrt (\<lambda>p q. ?f p \<le> ?f q) ?L" by (simp add: sorted_map)
  have in_range: "\<forall>p\<in>set ?L. p < length ks" by simp
  have nums: "\<And>p. p < length ks \<Longrightarrow> as_number (ks ! p) \<noteq> None"
    using assms by (simp add: list_all_length)
  have "sorted_wrt (\<lambda>p q. key_le (ks ! q) (ks ! p)) ?L"
  proof (rule sorted_wrt_mono_rel [OF _ s1])
    fix p q assume "p \<in> set ?L" "q \<in> set ?L" "?f p \<le> ?f q"
    with in_range have "p < length ks" "q < length ks" "key_number (ks ! q) \<le> key_number (ks ! p)"
      by auto
    then show "key_le (ks ! q) (ks ! p)" using nums by (simp add: key_le_numbers)
  qed
  then have "sorted_wrt key_le (map (\<lambda>p. ks ! p) (rev ?L))"
    by (simp add: sorted_wrt_map sorted_wrt_rev rev_map [symmetric])
  with perm show ?thesis by (simp add: sorts_def reversing_argsort_def)
qed

theorem sort_data_sorted_witness:
  "position (Name ''A'') (map fst (columns T7)) = Some 0
   \<and> comparable (present (column_cells T7 0))
   \<and> sorts insertion_argsort (present (column_cells T7 0))
   \<and> sorts insertion_argsort (rev (present (column_cells T7 0)))
   \<and> snd (sort_data insertion_argsort s0 T7 ''A'' True) =
       T7\<lparr>rows := [(1, [Num 3, Str ''low'']), (0, [Num 7, Str ''first'']),
                    (2, [Num 7, Str ''second'']), (3, [Null, Str ''none''])]\<rparr>
   \<and> mset (rows (snd (sort_data insertion_argsort s0 T7 ''A'' True))) = mset (rows T7)
   \<and> ordered True (column_cells (snd (sort_data insertion_argsort s0 T7 ''A'' True)) 0)
   \<and> snd (sort_data insertion_argsort s0 T7 ''A'' False) =
       T7\<lparr>rows := [(0, [Num 7, Str ''first'']), (2, [Num 7, Str ''second'']),
                    (1, [Num 3, Str ''low'']), (3, [Null, Str ''none''])]\<rparr>
   \<and> mset (rows (snd (sort_data insertion_argsort s0 T7 ''A'' False))) = mset (rows T7)
   \<and> ordered False (column_cells (snd (sort_data insertion_argsort s0 T7 ''A'' False)) 0)"
  using sort_data_sorted [of "''A''" T7 0 insertion_argsort True s0]
    sort_data_sorted [of "''A''" T7 0 insertion_argsort False s0]
  by (simp add: sort_data_def sort_values_def nargsort_def Let_def comparable_def
        column_cells_def cell_at_def present_def sorts_def ordered_def stable_def key_le_def
        key_number_def log_action_def
        T7_def s0_def insertion_argsort_def upt_rec)

text \<open>
  Stability does not follow. \<open>reversing_argsort\<close> sorts every list of numbers
  (\<open>reversing_argsort_sorts\<close>), so it is an \<^verbatim>\<open>argsort\<close> the call may run on; with it the
  eighteen rows of equal key come out in the opposite order.
\<close>

theorem sort_data_not_stable:
  "position (Name ''A'') (map fst (columns T18)) = Some 0
   \<and> comparable (present (column_cells T18 0))
   \<and> sorts reversing_argsort (present (column_cells T18 0))
   \<and> rows (snd (sort_data reversing_argsort s0 T18 ''A'' True)) = rev (rows T18)
   \<and> \<not> stable 0 T18 (snd (sort_data reversing_argsort s0 T18 ''A'' True))"
  by (simp add: sort_data_def sort_values_def nargsort_def Let_def comparable_def
        column_cells_def cell_at_def present_def sorts_def ordered_def stable_def key_le_def
        key_number_def log_action_def T18_def s0_def reversing_argsort_def upt_rec)

subsection \<open>Charts\<close>

lemma chart_body_invalid:
  assumes "chart_type \<notin> {''Bar Chart'', ''Pie Chart''}"
    and "\<not> (chart_type = ''Line Chart'' \<and> truthy y)"
  shows "chart_body plot df chart_type x y =
           Inr ([[Text ''Invalid chart type or missing column(s). Please check your inputs.'']], [])"
  using assms by (auto simp: chart_body_def)

lemma chart_body_absent:
  assumes "chart_type = ''Bar Chart'' \<or> chart_type = ''Pie Chart''
           \<or> (chart_type = ''Line Chart'' \<and> truthy y)"
    and "Name x \<notin> set (map fst (columns df))"
  shows "chart_body plot df chart_type x y = Inl KeyError"
proof -
  have "getitem df x = Inl KeyError"
    using position_absent [OF assms(2)] by (simp add: getitem_def)
  with assms(1) show ?thesis by (auto simp: chart_body_def)
qed

lemma log_foldl_report: "log (foldl report s messages) = log s"
  by (induction messages arbitrary: s) (simp_all add: report_def)

text \<open>
  Claim C8, as amended. On the invalid combination (a chart type other than the three,
  or a line chart with no y column) \<open>create_chart\<close> reports the error, shows an empty
  figure and still appends its log entry. In every call the log either gains exactly
  that one entry, or an exception was raised, and then the handler reports it and the
  log is left as it was. The latter happens whenever the chart type is valid and the x
  column is not a column of the table.
\<close>

theorem create_chart_log:
  "(chart_type \<notin> {''Bar Chart'', ''Pie Chart''} \<and> \<not> (chart_type = ''Line Chart'' \<and> truthy y) \<longrightarrow>
      create_chart plot s df chart_type x y =
        s\<lparr>log := log s @ [chart_entry chart_type x y],
          st_error := st_error s
            @ [[Text ''Invalid chart type or missing column(s). Please check your inputs.'']],
          st_pyplot := st_pyplot s @ [[]]\<rparr>)
   \<and> (log (create_chart plot s df chart_type x y) = log s @ [chart_entry chart_type x y]
       \<or> (\<exists>e. create_chart plot s df chart_type x y =
                 s\<lparr>st_error := st_error s @ [[Text ''Error creating chart: '', Sub_error e]]\<rparr>))
   \<and> ((chart_type = ''Bar Chart'' \<or> chart_type = ''Pie Chart''
          \<or> (chart_type = ''Line Chart'' \<and> truthy y))
        \<and> Name x \<notin> set (map fst (columns df)) \<longrightarrow>
      create_chart plot s df chart_type x y =
        s\<lparr>st_error := st_error s @ [[Text ''Error creating chart: '', Sub_error KeyError]]\<rparr>)"
proof (intro conjI impI)
  assume "chart_type \<notin> {''Bar Chart'', ''Pie Chart''} \<and> \<not> (chart_type = ''Line Chart'' \<and> truthy y)"
  then have "chart_body plot df chart_type x y =
           Inr ([[Text ''Invalid chart type or missing column(s). Please check your inputs.'']], [])"
    by (intro chart_body_invalid) auto
  then show "create_chart plot s df chart_type x y =
        s\<lparr>log := log s @ [chart_entry chart_type x y],
          st_error := st_error s
            @ [[Text ''Invalid chart type or missing column(s). Please check your inputs.'']],
          st_pyplot := st_pyplot s @ [[]]\<rparr>"
    by (simp add: create_chart_def log_action_def report_def)
next
  show "log (create_chart plot s df chart_type x y) = log s @ [chart_entry chart_type x y]
       \<or> (\<exists>e. create_chart plot s df chart_type x y =
                 s\<lparr>st_error := st_error s @ [[Text ''Error creating chart: '', Sub_error e]]\<rparr>)"
  proof (cases "chart_body plot df chart_type x y")
    case (Inl e)
    then have "create_chart plot s df chart_type x y =
                 s\<lparr>st_error := st_error s @ [[Text ''Error creating chart: '', Sub_error e]]\<rparr>"
      by (simp add: create_chart_def report_def)
    then show ?thesis by blast
  next
    case (Inr r)
    obtain messages drawn where "r = (messages, drawn)" by (cases r)
    with Inr have "log (create_chart plot s df chart_type x y) = log s @ [chart_entry chart_type x y]"
      by (simp add: create_chart_def log_action_def log_foldl_report)
    then show ?thesis ..
  qed
next
  assume "(chart_type = ''Bar Chart'' \<or> chart_type = ''Pie Chart''
          \<or> (chart_type = ''Line Chart'' \<and> truthy y))
        \<and> Name x \<notin> set (map fst (columns df))"
  then have "chart_body plot df chart_type x y = Inl KeyError"
    by (intro chart_body_absent) auto
  then show "create_chart plot s df chart_type x y =
        s\<lparr>st_error := st_error s @ [[Text ''Error creating chart: '', Sub_error KeyError]]\<rparr>"
    by (simp add: create_chart_def report_def)
qed


theorem create_chart_log_witness:
  "''Line Chart'' \<notin> {''Bar Chart'', ''Pie Chart''} \<and> \<not> truthy None
   \<and> create_chart never_raises s0 T1 ''Line Chart'' ''A'' None =
       \<lparr>log = [Log_entry ''create_chart''
                 [Text ''Created '', Sub_str ''Line Chart'', Text '' using '', Sub_str ''A'',
                  Text '' '', Sub_str [], Text ''.'']],
        st_error = [[Text ''Invalid chart type or missing column(s). Please check your inputs.'']],
        st_pyplot = [[]]\<rparr>
   \<and> Name ''Z'' \<notin> set (map fst (columns T1))
   \<and> create_chart never_raises s0 T1 ''Pie Chart'' ''Z'' None =
       \<lparr>log = [], st_error = [[Text ''Error creating chart: '', Sub_error KeyError]],
        st_pyplot = []\<rparr>"
  using create_chart_log [of "''Line Chart''" None never_raises s0 T1 "''A''"]
    create_chart_log [of "''Pie Chart''" None never_raises s0 T1 "''Z''"]
  by (simp add: truthy_def chart_entry_def s0_def T1_def)

text \<open>
  A bar chart over a column that the table lacks: the lookup raises KeyError before
  anything is drawn, the handler reports it, and no log entry is appended.
\<close>

theorem create_chart_counterexample:
  "Name ''Z'' \<notin> set (map fst (columns T1))
   \<and> create_chart never_raises s0 T1 ''Bar Chart'' ''Z'' None =
       s0\<lparr>st_error := [[Text ''Error creating chart: '', Sub_error KeyError]]\<rparr>
   \<and> log (create_chart never_raises s0 T1 ''Bar Chart'' ''Z'' None) = []"
  by (simp add: create_chart_def chart_body_def getitem_def truthy_def report_def s0_def T1_def)

end
